theory Spec2Isabelle
  imports Main "HOL-Library.Sublist" "HOL-Library.Multiset"
begin

section \<open>CC98-Watchdog: a shallow embedding of \<^verbatim>\<open>main.py\<close>, \<^verbatim>\<open>cc98.py\<close> and \<^verbatim>\<open>dingtalk.py\<close>\<close>

text \<open>
  The program logs in to a forum API, polls the newest topics at a fixed interval and
  pushes a chat message for each new topic that matches a board and keyword rule.

  Conventions of the embedding:
  \<^item> a Python \<^verbatim>\<open>str\<close> is the list of its Unicode code points (\<open>pystr\<close>), so that
    \<^verbatim>\<open>len\<close>, slicing and \<^verbatim>\<open>in\<close> count what Python counts;
  \<^item> a JSON object read with \<^verbatim>\<open>.get\<close> is a record of optional fields: \<open>None\<close> is an
    absent key, and a present key holds a value of the type the API documents;
  \<^item> a raised exception is a value \<open>Inl e\<close>; every function that touches the client or
    the network takes the state and returns the new one beside its result, so the
    effects made before an exception are kept;
  \<^item> the remote servers are oracles of the \<open>world\<close>: the answer to the \<open>n\<close>-th HTTP
    request of the process is a function of \<open>n\<close>, so any server behaviour is some world;
  \<^item> the state carries a \<open>trace\<close> of the observable steps (calls of \<^verbatim>\<open>login\<close>, HTTP
    requests, sleeps, rule evaluations, dispatches). It is bookkeeping of the model:
    the program's own log lines are not modelled.
\<close>

subsection \<open>Strings\<close>

type_synonym pystr = "nat list"

definition ascii :: "string \<Rightarrow> pystr" where
  "ascii cs = map of_char cs"

text \<open>The operator \<^verbatim>\<open>k in s\<close> on strings: \<open>k\<close> occurs in \<open>s\<close> as a contiguous block.\<close>

fun str_in :: "pystr \<Rightarrow> pystr \<Rightarrow> bool" where
  "str_in k [] = (k = [])"
| "str_in k (c # cs) = (prefix k (c # cs) \<or> str_in k cs)"

text \<open>\<^verbatim>\<open>s.replace(a, b)\<close> for a one-character \<open>a\<close>.\<close>

definition replace_char :: "nat \<Rightarrow> nat \<Rightarrow> pystr \<Rightarrow> pystr" where
  "replace_char a b s = map (\<lambda>c. if c = a then b else c) s"

text \<open>\<^verbatim>\<open>str(n)\<close> for an integer, as an f-string renders it.\<close>

fun str_nat :: "nat \<Rightarrow> pystr" where
  "str_nat n = (if n < 10 then [48 + n] else str_nat (n div 10) @ [48 + n mod 10])"

declare str_nat.simps [simp del]

definition str_int :: "int \<Rightarrow> pystr" where
  "str_int i = (if i < 0 then 45 # str_nat (nat (- i)) else str_nat (nat i))"

text \<open>An optional integer in an f-string: the value \<^verbatim>\<open>None\<close> renders as \<^verbatim>\<open>None\<close>.\<close>

definition str_int_opt :: "int option \<Rightarrow> pystr" where
  "str_int_opt x = (case x of None \<Rightarrow> ascii ''None'' | Some i \<Rightarrow> str_int i)"

definition str_opt :: "pystr option \<Rightarrow> pystr" where
  "str_opt x = (case x of None \<Rightarrow> ascii ''None'' | Some s \<Rightarrow> s)"

text \<open>Python's truth value of an optional string: \<^verbatim>\<open>None\<close> and \<^verbatim>\<open>""\<close> are false.\<close>

definition truthy :: "pystr option \<Rightarrow> bool" where
  "truthy x = (case x of None \<Rightarrow> False | Some s \<Rightarrow> s \<noteq> [])"

subsection \<open>Data\<close>

record topic =
  id_key :: "int option"
  boardId :: "int option"
  title :: "pystr option"
  userName :: "pystr option"
  time_key :: "pystr option"

record post =
  content :: "pystr option"

record board =
  board_id_key :: "int option"
  board_name_key :: "pystr option"

record root_board =
  root_id_key :: "int option"
  root_name_key :: "pystr option"
  boards :: "board list"

record token_data =
  access_token_key :: "pystr option"
  refresh_token_key :: "pystr option"

record webhook_body =
  errcode :: "int option"
  errmsg :: "pystr option"

text \<open>
  The outcome of one HTTP request: the request raises (no connection, timeout), or a
  response arrives with a status code and a body; \<open>json = None\<close> is a body that
  \<^verbatim>\<open>response.json()\<close> cannot decode.
\<close>

datatype 'a response = ConnectionError | Response (status_code: int) (json: "'a option")

datatype exn = RequestException | JSONDecodeError | KeyError | ValueError | UnicodeEncodeError

datatype endpoint = TokenPOST | TopicNewGET | BoardAllGET | TopicPostGET int | WebhookPOST pystr

datatype event =
    E_login
  | E_request endpoint
  | E_sleep nat
  | E_evaluate topic
  | E_dispatch topic pystr

text \<open>
  The world outside the process. \<open>str_lower\<close> is Python's \<^verbatim>\<open>str.lower\<close>, whose Unicode
  case tables are not part of the repository; \<open>dingtalk_configured\<close> says that both
  \<^verbatim>\<open>DINGTALK_SEND_URL\<close> and \<^verbatim>\<open>DINGTALK_SIGNATURE\<close> are set in the environment.
\<close>

record world =
  str_lower :: "pystr \<Rightarrow> pystr"
  token_endpoint :: "nat \<Rightarrow> token_data response"
  topic_new :: "nat \<Rightarrow> topic list response"
  board_all :: "nat \<Rightarrow> root_board list response"
  topic_post :: "nat \<Rightarrow> post list response"
  webhook :: "nat \<Rightarrow> webhook_body response"
  dingtalk_configured :: bool

text \<open>
  The fields of \<^verbatim>\<open>CC98Client\<close> that the program reads or writes after construction,
  the \<^verbatim>\<open>Authorization\<close> header of its session, and the bookkeeping: \<open>clock\<close> counts the
  HTTP requests issued so far.
\<close>

record state =
  client_id :: "pystr option"
  client_secret :: "pystr option"
  access_token :: "pystr option"
  refresh_token :: "pystr option"
  authorization :: "pystr option"
  board_map :: "(int option \<times> pystr option) list"
  clock :: nat
  trace :: "event list"

definition emit :: "event \<Rightarrow> state \<Rightarrow> state" where
  "emit e s = s\<lparr>trace := trace s @ [e]\<rparr>"

definition request :: "endpoint \<Rightarrow> state \<Rightarrow> state" where
  "request ep s = (emit (E_request ep) s)\<lparr>clock := Suc (clock s)\<rparr>"

subsection \<open>\<^verbatim>\<open>cc98.py\<close>\<close>

text \<open>
  The shape shared by \<^verbatim>\<open>get_new_topics\<close>, \<^verbatim>\<open>get_posts\<close> and \<^verbatim>\<open>get_all_boards\<close>: status
  200 returns the decoded body, any other status returns the empty list.
\<close>

definition json_or_empty :: "'a list response \<Rightarrow> exn + 'a list" where
  "json_or_empty r =
     (case r of
        ConnectionError \<Rightarrow> Inl RequestException
      | Response st body \<Rightarrow>
          if st = 200 then (case body of None \<Rightarrow> Inl JSONDecodeError | Some xs \<Rightarrow> Inr xs)
          else Inr [])"

definition get_new_topics :: "world \<Rightarrow> state \<Rightarrow> (exn + topic list) \<times> state" where
  "get_new_topics w s = (json_or_empty (topic_new w (clock s)), request TopicNewGET s)"

definition get_posts :: "world \<Rightarrow> state \<Rightarrow> int \<Rightarrow> (exn + post list) \<times> state" where
  "get_posts w s topic_id =
     (json_or_empty (topic_post w (clock s)), request (TopicPostGET topic_id) s)"

definition get_all_boards :: "world \<Rightarrow> state \<Rightarrow> (exn + root_board list) \<times> state" where
  "get_all_boards w s = (json_or_empty (board_all w (clock s)), request BoardAllGET s)"

text \<open>The dictionary \<^verbatim>\<open>board_map\<close> is an association list: \<^verbatim>\<open>m[k] = v\<close> overwrites or adds.\<close>

fun dict_set :: "'k \<Rightarrow> 'v \<Rightarrow> ('k \<times> 'v) list \<Rightarrow> ('k \<times> 'v) list" where
  "dict_set k v [] = [(k, v)]"
| "dict_set k v ((k', v') # m) = (if k = k' then (k, v) # m else (k', v') # dict_set k v m)"

text \<open>\<^verbatim>\<open>m.get(k)\<close> where the stored values may themselves be \<^verbatim>\<open>None\<close>.\<close>

definition dict_get :: "('k \<times> 'v option) list \<Rightarrow> 'k \<Rightarrow> 'v option" where
  "dict_get m k = (case map_of m k of None \<Rightarrow> None | Some v \<Rightarrow> v)"

definition map_root :: "(int option \<times> pystr option) list \<Rightarrow> root_board \<Rightarrow> (int option \<times> pystr option) list" where
  "map_root m root =
     fold (\<lambda>b m'. dict_set (board_id_key b) (board_name_key b) m') (boards root)
       (dict_set (root_id_key root) (root_name_key root) m)"

definition refresh_board_map :: "world \<Rightarrow> state \<Rightarrow> state" where
  "refresh_board_map w s =
     (case get_all_boards w s of
        (Inl e, s') \<Rightarrow> s'
      | (Inr root_boards, s') \<Rightarrow> s'\<lparr>board_map := fold (\<lambda>root m. map_root m root) root_boards (board_map s')\<rparr>)"

definition unknown_board :: "int option \<Rightarrow> pystr" where
  "unknown_board board_id = ascii ''Unknown Board ('' @ str_int_opt board_id @ ascii '')''"

text \<open>\<^verbatim>\<open>name or default\<close>.\<close>

definition or_else :: "pystr option \<Rightarrow> pystr \<Rightarrow> pystr" where
  "or_else name dflt = (case name of None \<Rightarrow> dflt | Some n \<Rightarrow> if n = [] then dflt else n)"

definition get_board_name :: "world \<Rightarrow> state \<Rightarrow> int option \<Rightarrow> pystr \<times> state" where
  "get_board_name w s board_id =
     (let s1 = (if board_map s = [] then refresh_board_map w s else s);
          name = dict_get (board_map s1) board_id
      in if \<not> truthy name then
           (let s2 = refresh_board_map w s1;
                name2 = dict_get (board_map s2) board_id
            in (or_else name2 (unknown_board board_id), s2))
         else (or_else name (unknown_board board_id), s1))"

definition login :: "world \<Rightarrow> state \<Rightarrow> bool \<times> state" where
  "login w s =
     (let s0 = emit E_login s in
      if \<not> truthy (client_id s0) \<or> \<not> truthy (client_secret s0) then (False, s0)
      else
        (let s1 = request TokenPOST s0 in
         case token_endpoint w (clock s0) of
           ConnectionError \<Rightarrow> (False, s1)
         | Response st body \<Rightarrow>
             if st = 200 then
               (case body of
                  None \<Rightarrow> (False, s1)
                | Some token_data \<Rightarrow>
                    (True, s1\<lparr>access_token := access_token_key token_data,
                              refresh_token := refresh_token_key token_data,
                              authorization := Some (ascii ''Bearer '' @ str_opt (access_token_key token_data))\<rparr>))
             else (False, s1)))"

subsection \<open>\<^verbatim>\<open>dingtalk.py\<close>\<close>

text \<open>
  A code point that \<^verbatim>\<open>str.encode("utf-8")\<close> refuses: a surrogate (U+D800 to U+DFFF),
  which a decoded JSON string holds when its text has an unpaired surrogate escape.
\<close>

definition surrogate :: "nat \<Rightarrow> bool" where
  "surrogate c \<longleftrightarrow> 55296 \<le> c \<and> c \<le> 57343"

text \<open>
  \<^verbatim>\<open>send_dingtalk_message\<close> catches nothing: the encoding of the message (before any
  request is made), a failing POST, an undecodable body of a 200 response and a missing
  \<^verbatim>\<open>errcode\<close> or \<^verbatim>\<open>errmsg\<close> key raise to the caller. The timestamp and signature only
  enter the URL of the request and are not modelled.
\<close>

definition send_dingtalk_message :: "world \<Rightarrow> state \<Rightarrow> pystr \<Rightarrow> (exn + unit) \<times> state" where
  "send_dingtalk_message w s message =
     (if \<not> dingtalk_configured w then (Inr (), s)
      else if list_ex surrogate message then (Inl UnicodeEncodeError, s)
      else
        (let s1 = request (WebhookPOST message) s in
         case webhook w (clock s) of
           ConnectionError \<Rightarrow> (Inl RequestException, s1)
         | Response st body \<Rightarrow>
             if st \<noteq> 200 then (Inr (), s1)
             else
               (case body of
                  None \<Rightarrow> (Inl JSONDecodeError, s1)
                | Some b \<Rightarrow>
                    (case errcode b of
                       None \<Rightarrow> (Inl KeyError, s1)
                     | Some c \<Rightarrow>
                         if c \<noteq> 0 then
                           (case errmsg b of None \<Rightarrow> (Inl KeyError, s1) | Some m \<Rightarrow> (Inr (), s1))
                         else (Inr (), s1)))))"

subsection \<open>\<^verbatim>\<open>main.py\<close>\<close>

definition INTERVAL :: nat where
  "INTERVAL = 2 * 60"

definition DEBUG :: bool where
  "DEBUG = False"

text \<open>
  The nineteen keywords, as code points. The first seven are the Chinese words
  U+524D U+7AEF, U+7F51 U+9875, U+7F51 U+7AD9, U+540E U+7AEF, U+670D U+52A1 U+5668,
  U+5F00 U+53D1 and U+7A0B U+5E8F.
\<close>

definition KEYWORDS :: "pystr list" where
  "KEYWORDS =
     [[21069, 31471], [32593, 39029], [32593, 31449], [21518, 31471],
      [26381, 21153, 22120], [24320, 21457], [31243, 24207],
      ascii ''fullstack'', ascii ''frontend'', ascii ''backend'', ascii ''web'', ascii ''js'',
      ascii ''javascript'', ascii ''typescript'', ascii ''react'', ascii ''vue'',
      ascii ''angular'', ascii ''node'', ascii ''html'']"

text \<open>\<^verbatim>\<open>d.get(key, default)\<close>.\<close>

definition get_or :: "'a option \<Rightarrow> 'a \<Rightarrow> 'a" where
  "get_or x dflt = (case x of None \<Rightarrow> dflt | Some v \<Rightarrow> v)"

definition check_topic_condition :: "(pystr \<Rightarrow> pystr) \<Rightarrow> topic \<Rightarrow> bool" where
  "check_topic_condition lower t =
     (let board_id = boardId t;
          title_l = lower (get_or (title t) [])
      in if board_id = Some 459 then
           (if list_ex (\<lambda>keyword. str_in keyword title_l) KEYWORDS then True else False)
         else False)"

text \<open>
  The message template. Its fixed Chinese labels are written as code points: the header
  line, then the labels for board, title, author, time and link.
\<close>

definition format_message :: "topic \<Rightarrow> pystr \<Rightarrow> pystr \<Rightarrow> pystr" where
  "format_message t board_name content0 =
     (let title_s = get_or (title t) (ascii ''No Title'');
          author = get_or (userName t) (ascii ''Unknown'');
          topic_id = id_key t;
          time_str = replace_char 84 32 (take 19 (get_or (time_key t) []));
          content1 = (if length content0 > 500 then take 500 content0 @ ascii ''...'' else content0)
      in [12304, 67, 67, 57, 56, 32, 26032, 24086, 36890, 30693, 12305, 10]
         @ [26495, 22359, 58, 32] @ board_name @ [10]
         @ [26631, 39064, 58, 32] @ title_s @ [10]
         @ [20316, 32773, 58, 32] @ author @ [10]
         @ [26102, 38388, 58, 32] @ time_str @ [10]
         @ [38142, 25509, 58, 32] @ ascii ''https://www.cc98.org/topic/'' @ str_int_opt topic_id @ [10]
         @ ascii ''----------------'' @ [10]
         @ content1)"

text \<open>\<^verbatim>\<open>t.get("id", 0)\<close>, the key of the filter, of the sort and of the mark.\<close>

definition get_id :: "topic \<Rightarrow> int" where
  "get_id t = get_or (id_key t) 0"

text \<open>\<^verbatim>\<open>max(...)\<close> over a generator: \<^verbatim>\<open>ValueError\<close> on an empty sequence.\<close>

fun py_max :: "int list \<Rightarrow> exn + int" where
  "py_max [] = Inl ValueError"
| "py_max (x # xs) = Inr (fold max xs x)"

text \<open>Lines 128 to 134: the first post's content, with the two placeholder strings.\<close>

definition fetch_content :: "world \<Rightarrow> state \<Rightarrow> int \<Rightarrow> pystr \<times> state" where
  "fetch_content w s t_id =
     (case get_posts w s t_id of
        (Inl e, s') \<Rightarrow> (ascii ''No content available.'', s')
      | (Inr posts, s') \<Rightarrow>
          (case posts of
             [] \<Rightarrow> (ascii ''No content available.'', s')
           | p # ps \<Rightarrow> (get_or (content p) (ascii ''No content.''), s')))"

text \<open>
  Lines 121 to 146: the body of the loop for one selected topic. An exception of the
  dispatch is the only one that leaves it.
\<close>

definition process_topic :: "world \<Rightarrow> state \<Rightarrow> topic \<Rightarrow> (exn + unit) \<times> state" where
  "process_topic w s t =
     (let t_id = get_id t;
          s0 = emit (E_evaluate t) s
      in if check_topic_condition (str_lower w) t then
           (case get_board_name w s0 (boardId t) of
              (board_name, s1) \<Rightarrow>
                (case fetch_content w s1 t_id of
                   (content1, s2) \<Rightarrow>
                     (let msg = format_message t board_name content1 in
                      if DEBUG then (Inr (), s2)
                      else send_dingtalk_message w (emit (E_dispatch t msg) s2) msg)))
         else
           (case get_board_name w s0 (boardId t) of
              (board_name, s1) \<Rightarrow> (Inr (), s1)))"

text \<open>
  Lines 120 to 150: the loop over the selected topics, carrying \<^verbatim>\<open>new_max_id\<close>. An
  exception leaves the loop at once.
\<close>

fun for_new_topics :: "world \<Rightarrow> state \<Rightarrow> int \<Rightarrow> topic list \<Rightarrow> (exn + int) \<times> state" where
  "for_new_topics w s new_max_id [] = (Inr new_max_id, s)"
| "for_new_topics w s new_max_id (t # ts) =
     (case process_topic w s t of
        (Inl e, s') \<Rightarrow> (Inl e, s')
      | (Inr u, s') \<Rightarrow>
          for_new_topics w s' (if get_id t > new_max_id then get_id t else new_max_id) ts)"

text \<open>Lines 114 to 118: the topics newer than the mark, sorted by id (a stable sort).\<close>

definition new_topics :: "int \<Rightarrow> topic list \<Rightarrow> topic list" where
  "new_topics max_id topics = sort_key get_id (filter (\<lambda>t. get_id t > max_id) topics)"

text \<open>Lines 103 to 109: the fetch, and on an empty result one login and one more fetch.\<close>

definition fetch_topics :: "world \<Rightarrow> state \<Rightarrow> (exn + topic list) \<times> state" where
  "fetch_topics w s =
     (case get_new_topics w s of
        (Inl e, s1) \<Rightarrow> (Inl e, s1)
      | (Inr topics, s1) \<Rightarrow>
          if topics = [] then
            (case login w s1 of
               (True, s2) \<Rightarrow> get_new_topics w s2
             | (False, s2) \<Rightarrow> (Inr topics, s2))
          else (Inr topics, s1))"

text \<open>Lines 101 to 155: the body of the \<^verbatim>\<open>try\<close> of one cycle, returning the new mark.\<close>

definition cycle_body :: "world \<Rightarrow> state \<Rightarrow> int \<Rightarrow> (exn + int) \<times> state" where
  "cycle_body w s max_id =
     (case fetch_topics w s of
        (Inl e, s1) \<Rightarrow> (Inl e, s1)
      | (Inr topics, s1) \<Rightarrow>
          if topics \<noteq> [] then for_new_topics w s1 max_id (new_topics max_id topics)
          else (Inr max_id, s1))"

text \<open>
  Lines 96 to 159: one iteration of \<^verbatim>\<open>while True\<close>. The \<^verbatim>\<open>except\<close> at the cycle boundary
  logs the exception and keeps \<^verbatim>\<open>max_id\<close>.
\<close>

definition cycle :: "world \<Rightarrow> state \<times> int \<Rightarrow> state \<times> int" where
  "cycle w c =
     (case c of (s, max_id) \<Rightarrow>
        (case cycle_body w (emit (E_sleep INTERVAL) s) max_id of
           (Inl e, s') \<Rightarrow> (s', max_id)
         | (Inr new_max_id, s') \<Rightarrow> (s', new_max_id)))"

text \<open>The loop never ends by itself; \<open>main_loop w n\<close> is the state after \<open>n\<close> cycles.\<close>

fun main_loop :: "world \<Rightarrow> nat \<Rightarrow> state \<times> int \<Rightarrow> state \<times> int" where
  "main_loop w 0 c = c"
| "main_loop w (Suc n) c = main_loop w n (cycle w c)"

text \<open>
  Lines 74 to 94: the initial login and the baseline. \<open>None\<close> is a \<^verbatim>\<open>return\<close> from
  \<^verbatim>\<open>main\<close>; \<open>Some max_id\<close> goes on to the loop. The client is taken as constructed.
\<close>

definition initialize :: "world \<Rightarrow> state \<Rightarrow> int option \<times> state" where
  "initialize w s =
     (case login w s of
        (False, s1) \<Rightarrow> (None, s1)
      | (True, s1) \<Rightarrow>
          (case get_new_topics w s1 of
             (Inl e, s2) \<Rightarrow> (None, s2)
           | (Inr topics, s2) \<Rightarrow>
               if topics \<noteq> [] then
                 (case py_max (map get_id topics) of
                    Inl e \<Rightarrow> (None, s2)
                  | Inr max_id \<Rightarrow> (Some max_id, s2))
               else (Some 0, s2)))"

datatype run = Exited state | Running state int

definition main :: "world \<Rightarrow> state \<Rightarrow> nat \<Rightarrow> run" where
  "main w s n =
     (case initialize w s of
        (None, s') \<Rightarrow> Exited s'
      | (Some max_id, s') \<Rightarrow> (case main_loop w n (s', max_id) of (s'', m) \<Rightarrow> Running s'' m))"

subsection \<open>Reading the trace\<close>

text \<open>The events added between two states of one run.\<close>

definition since :: "state \<Rightarrow> state \<Rightarrow> event list" where
  "since s s' = drop (length (trace s)) (trace s')"

fun evaluated :: "event list \<Rightarrow> topic list" where
  "evaluated [] = []"
| "evaluated (E_evaluate t # es) = t # evaluated es"
| "evaluated (e # es) = evaluated es"

fun dispatched :: "event list \<Rightarrow> topic list" where
  "dispatched [] = []"
| "dispatched (E_dispatch t msg # es) = t # dispatched es"
| "dispatched (e # es) = dispatched es"

definition logins :: "event list \<Rightarrow> nat" where
  "logins es = length (filter (\<lambda>e. e = E_login) es)"

definition fetches :: "event list \<Rightarrow> nat" where
  "fetches es = length (filter (\<lambda>e. e = E_request TopicNewGET) es)"

definition board_fetches :: "event list \<Rightarrow> nat" where
  "board_fetches es = length (filter (\<lambda>e. e = E_request BoardAllGET) es)"

definition sleeps :: "event list \<Rightarrow> nat" where
  "sleeps es = length (filter (\<lambda>e. e = E_sleep INTERVAL) es)"

text \<open>The events of the board directory, of the content fetch and of the webhook.\<close>

definition side_events :: "event list \<Rightarrow> bool" where
  "side_events d \<longleftrightarrow>
     evaluated d = [] \<and> dispatched d = [] \<and> logins d = 0 \<and> fetches d = 0 \<and> sleeps d = 0"

text \<open>The batch one cycle works on: the result of its fetch, empty when the fetch raised.\<close>

definition fetched_batch :: "world \<Rightarrow> state \<Rightarrow> topic list" where
  "fetched_batch w s = (case fst (fetch_topics w s) of Inl e \<Rightarrow> [] | Inr topics \<Rightarrow> topics)"

text \<open>Two worlds that answer alike from the \<open>n\<close>-th request on.\<close>

definition agree_from :: "nat \<Rightarrow> world \<Rightarrow> world \<Rightarrow> bool" where
  "agree_from n w w' \<longleftrightarrow>
     str_lower w = str_lower w' \<and> dingtalk_configured w = dingtalk_configured w'
     \<and> (\<forall>k\<ge>n. token_endpoint w k = token_endpoint w' k \<and> topic_new w k = topic_new w' k
           \<and> board_all w k = board_all w' k \<and> topic_post w k = topic_post w' k
           \<and> webhook w k = webhook w' k)"

subsection \<open>Concrete inputs\<close>

text \<open>
  A lower-casing function for the concrete runs below: it agrees with \<^verbatim>\<open>str.lower\<close> on
  ASCII text and on text without cased letters, such as the Chinese titles.
\<close>

definition ascii_lower :: "pystr \<Rightarrow> pystr" where
  "ascii_lower s = map (\<lambda>c. if 65 \<le> c \<and> c \<le> 90 then c + 32 else c) s"

text \<open>
  The two titles of the specification's example: the first (U+6025 U+62DB U+524D U+7AEF
  U+5F00 U+53D1) contains two keywords, the second (U+8003 U+8BD5 U+5468 U+6C42 U+81EA
  U+4E60 U+5BA4) none.
\<close>

definition title_hiring :: pystr where
  "title_hiring = [24613, 25307, 21069, 31471, 24320, 21457]"

definition title_exam :: pystr where
  "title_exam = [32771, 35797, 21608, 27714, 33258, 20064, 23460]"

definition mk_topic :: "int \<Rightarrow> int \<Rightarrow> pystr \<Rightarrow> topic" where
  "mk_topic i b ttl =
     \<lparr>id_key = Some i, boardId = Some b, title = Some ttl, userName = None, time_key = None\<rparr>"

text \<open>A client as constructed, with the credentials found and no token yet.\<close>

definition s_fresh :: state where
  "s_fresh =
     \<lparr>client_id = Some (ascii ''cid''), client_secret = Some (ascii ''sec''),
      access_token = None, refresh_token = None, authorization = None,
      board_map = [], clock = 0, trace = []\<rparr>"

definition token_ok :: "token_data response" where
  "token_ok =
     Response 200
       (Some \<lparr>access_token_key = Some (ascii ''tok''), refresh_token_key = Some (ascii ''ref'')\<rparr>)"

definition ids_topics :: "int list \<Rightarrow> topic list" where
  "ids_topics js = map (\<lambda>i. mk_topic i 100 (ascii ''t'')) js"

text \<open>
  The specification's scenario: the login succeeds, the baseline fetch (the second request
  of the process) returns ids 101 to 103 and every later fetch returns ids 102 to 105.
\<close>

definition w_scenario :: world where
  "w_scenario =
     \<lparr>str_lower = ascii_lower,
      token_endpoint = (\<lambda>n. token_ok),
      topic_new = (\<lambda>n. if n = 1 then Response 200 (Some (ids_topics [101, 102, 103]))
                       else Response 200 (Some (ids_topics [102, 103, 104, 105]))),
      board_all = (\<lambda>n. ConnectionError),
      topic_post = (\<lambda>n. ConnectionError),
      webhook = (\<lambda>n. ConnectionError),
      dingtalk_configured = True\<rparr>"

text \<open>
  A client that holds a token from an earlier login, and a world where the identity
  provider refuses the first request and every other server is unreachable or failing.
\<close>

definition s_old :: state where
  "s_old = \<lparr>client_id = Some (ascii ''cid''), client_secret = Some (ascii ''sec''),
     access_token = Some (ascii ''old''), refresh_token = Some (ascii ''oldr''),
     authorization = Some (ascii ''Bearer old''), board_map = [], clock = 0, trace = []\<rparr>"

definition w_down :: world where
  "w_down = \<lparr>str_lower = ascii_lower,
     token_endpoint = (\<lambda>n. if n = 0 then Response 401 None else ConnectionError),
     topic_new = (\<lambda>n. Response 500 None),
     board_all = (\<lambda>n. ConnectionError),
     topic_post = (\<lambda>n. ConnectionError),
     webhook = (\<lambda>n. ConnectionError),
     dingtalk_configured = True\<rparr>"

text \<open>A world where the login succeeds and the forum has no topics at all.\<close>

definition w_quiet :: world where
  "w_quiet =
     \<lparr>str_lower = ascii_lower,
      token_endpoint = (\<lambda>n. token_ok),
      topic_new = (\<lambda>n. Response 200 (Some [])),
      board_all = (\<lambda>n. ConnectionError),
      topic_post = (\<lambda>n. ConnectionError),
      webhook = (\<lambda>n. ConnectionError),
      dingtalk_configured = True\<rparr>"


text \<open>The scenario after its initialization, and after the first cycle.\<close>

definition s_ready :: state where
  "s_ready = snd (initialize w_scenario s_fresh)"

definition s_cycled :: state where
  "s_cycled = fst (cycle w_scenario (s_ready, 103))"

text \<open>
  Two worlds where the login succeeds and the baseline fetch (the second request of the
  process) fails. In the first the server answers it with status 503 and answers every
  later fetch with the topics 101 to 103, which exist before the process starts; in the
  second every newest-topics request raises.
\<close>

definition w_outage :: world where
  "w_outage =
     w_quiet\<lparr>topic_new := (\<lambda>n. if n = 1 then Response 503 None
                                  else Response 200 (Some (ids_topics [101, 102, 103])))\<rparr>"

definition w_unreachable :: world where
  "w_unreachable = w_quiet\<lparr>topic_new := (\<lambda>n. ConnectionError)\<rparr>"

text \<open>
  Two board directories: one that holds board 459 by name, and one that holds board 5
  with the empty string as its name.
\<close>

definition s_named :: state where
  "s_named = s_old\<lparr>board_map := [(Some 459, Some (ascii ''jobs''))]\<rparr>"

definition s_blank :: state where
  "s_blank = s_old\<lparr>board_map := [(Some 5, Some [])]\<rparr>"

section \<open>Properties\<close>

subsection \<open>The trace and the clock under each operation\<close>

lemma emit_simps [simp]:
  "trace (emit e s) = trace s @ [e]" "clock (emit e s) = clock s"
  "board_map (emit e s) = board_map s" "client_id (emit e s) = client_id s"
  "client_secret (emit e s) = client_secret s" "access_token (emit e s) = access_token s"
  "refresh_token (emit e s) = refresh_token s" "authorization (emit e s) = authorization s"
  by (simp_all add: emit_def)

lemma request_simps [simp]:
  "trace (request ep s) = trace s @ [E_request ep]" "clock (request ep s) = Suc (clock s)"
  "board_map (request ep s) = board_map s" "client_id (request ep s) = client_id s"
  "client_secret (request ep s) = client_secret s" "access_token (request ep s) = access_token s"
  "refresh_token (request ep s) = refresh_token s" "authorization (request ep s) = authorization s"
  by (simp_all add: request_def)

lemma since_append: "trace s' = trace s @ d \<Longrightarrow> since s s' = d"
  by (simp add: since_def)

lemma evaluated_append [simp]: "evaluated (a @ b) = evaluated a @ evaluated b"
  by (induction a rule: evaluated.induct) simp_all

lemma dispatched_append [simp]: "dispatched (a @ b) = dispatched a @ dispatched b"
  by (induction a rule: dispatched.induct) simp_all

lemma logins_simps [simp]:
  "logins [] = 0" "logins (a @ b) = logins a + logins b"
  "logins (e # es) = (if e = E_login then 1 else 0) + logins es"
  by (simp_all add: logins_def)

lemma fetches_simps [simp]:
  "fetches [] = 0" "fetches (a @ b) = fetches a + fetches b"
  "fetches (e # es) = (if e = E_request TopicNewGET then 1 else 0) + fetches es"
  by (simp_all add: fetches_def)

lemma board_fetches_simps [simp]:
  "board_fetches [] = 0" "board_fetches (a @ b) = board_fetches a + board_fetches b"
  "board_fetches (e # es) = (if e = E_request BoardAllGET then 1 else 0) + board_fetches es"
  by (simp_all add: board_fetches_def)

lemma sleeps_simps [simp]:
  "sleeps [] = 0" "sleeps (a @ b) = sleeps a + sleeps b"
  "sleeps (e # es) = (if e = E_sleep INTERVAL then 1 else 0) + sleeps es"
  by (simp_all add: sleeps_def)

lemma side_events_simps [simp]:
  "side_events []"
  "side_events (a @ b) \<longleftrightarrow> side_events a \<and> side_events b"
  "side_events [E_request BoardAllGET]"
  "side_events [E_request (TopicPostGET i)]"
  "side_events [E_request (WebhookPOST m)]"
  "side_events (E_request BoardAllGET # d) \<longleftrightarrow> side_events d"
  by (auto simp: side_events_def)

lemma refresh_board_map_trace [simp]:
  "trace (refresh_board_map w s) = trace s @ [E_request BoardAllGET]"
  "clock (refresh_board_map w s) = Suc (clock s)"
  by (simp_all add: refresh_board_map_def get_all_boards_def split: sum.splits)

lemma get_board_name_trace:
  assumes "get_board_name w s b = (r, s')"
  shows "\<exists>d. trace s' = trace s @ d \<and> side_events d \<and> board_fetches d = length d
            \<and> clock s' = clock s + length d"
  using assms by (auto simp: get_board_name_def Let_def split: if_splits)

lemma fetch_content_trace:
  assumes "fetch_content w s i = (r, s')"
  shows "trace s' = trace s @ [E_request (TopicPostGET i)] \<and> clock s' = Suc (clock s)"
  using assms by (auto simp: fetch_content_def get_posts_def split: sum.splits list.splits)

lemma send_dingtalk_message_trace:
  assumes "send_dingtalk_message w s m = (r, s')"
  shows "\<exists>d. trace s' = trace s @ d \<and> side_events d \<and> clock s \<le> clock s'"
  using assms
  by (auto simp: send_dingtalk_message_def Let_def split: if_splits response.splits option.splits)

lemma process_topic_trace:
  assumes "process_topic w s t = (r, s')"
  shows "\<exists>d. trace s' = trace s @ d \<and> evaluated d = [t]
            \<and> dispatched d = (if check_topic_condition (str_lower w) t then [t] else [])
            \<and> logins d = 0 \<and> fetches d = 0 \<and> sleeps d = 0 \<and> clock s \<le> clock s'"
proof (cases "check_topic_condition (str_lower w) t")
  case True
  obtain n s1 where g: "get_board_name w (emit (E_evaluate t) s) (boardId t) = (n, s1)"
    by (cases "get_board_name w (emit (E_evaluate t) s) (boardId t)")
  obtain c s2 where f: "fetch_content w s1 (get_id t) = (c, s2)"
    by (cases "fetch_content w s1 (get_id t)")
  from assms True g f have snd: "send_dingtalk_message w (emit (E_dispatch t (format_message t n c)) s2) (format_message t n c) = (r, s')"
    by (simp add: process_topic_def Let_def DEBUG_def)
  from get_board_name_trace [OF g] obtain d1 where
    d1: "trace s1 = trace s @ [E_evaluate t] @ d1" "side_events d1" "clock s \<le> clock s1"
    by auto
  from fetch_content_trace [OF f] have
    d2: "trace s2 = trace s1 @ [E_request (TopicPostGET (get_id t))]" "clock s1 \<le> clock s2"
    by auto
  from send_dingtalk_message_trace [OF snd] obtain d3 where
    d3: "trace s' = trace s2 @ [E_dispatch t (format_message t n c)] @ d3" "side_events d3" "clock s2 \<le> clock s'"
    by auto
  show ?thesis
    using True d1 d2 d3 by (auto simp: side_events_def)
next
  case False
  obtain n s1 where g: "get_board_name w (emit (E_evaluate t) s) (boardId t) = (n, s1)"
    by (cases "get_board_name w (emit (E_evaluate t) s) (boardId t)")
  from assms False g have "r = Inr ()" "s' = s1"
    by (simp_all add: process_topic_def Let_def)
  with get_board_name_trace [OF g] False show ?thesis
    by (auto simp: side_events_def)
qed

lemma for_new_topics_trace:
  assumes "for_new_topics w s m ts = (r, s')"
  shows "\<exists>d k. trace s' = trace s @ d \<and> k \<le> length ts \<and> evaluated d = take k ts
            \<and> dispatched d = filter (check_topic_condition (str_lower w)) (take k ts)
            \<and> logins d = 0 \<and> fetches d = 0 \<and> sleeps d = 0 \<and> clock s \<le> clock s'
            \<and> (\<forall>m'. r = Inr m' \<longrightarrow> k = length ts)"
  using assms
proof (induction ts arbitrary: s m)
  case Nil
  then show ?case by simp
next
  case (Cons t ts)
  obtain r1 s1 where p: "process_topic w s t = (r1, s1)"
    by (cases "process_topic w s t")
  from process_topic_trace [OF p] obtain d1 where
    d1: "trace s1 = trace s @ d1" "evaluated d1 = [t]"
        "dispatched d1 = (if check_topic_condition (str_lower w) t then [t] else [])"
        "logins d1 = 0" "fetches d1 = 0" "sleeps d1 = 0" "clock s \<le> clock s1"
    by blast
  show ?case
  proof (cases r1)
    case (Inl e)
    with Cons.prems p have "r = Inl e" "s' = s1" by simp_all
    with d1 show ?thesis
      by (intro exI [of _ d1] exI [of _ 1]) simp
  next
    case (Inr u)
    with Cons.prems p have
      "for_new_topics w s1 (if get_id t > m then get_id t else m) ts = (r, s')" by simp
    from Cons.IH [OF this] obtain d k where
      dk: "trace s' = trace s1 @ d" "k \<le> length ts" "evaluated d = take k ts"
          "dispatched d = filter (check_topic_condition (str_lower w)) (take k ts)"
          "logins d = 0" "fetches d = 0" "sleeps d = 0" "clock s1 \<le> clock s'"
          "\<forall>m'. r = Inr m' \<longrightarrow> k = length ts"
      by blast
    with d1 show ?thesis
      by (intro exI [of _ "d1 @ d"] exI [of _ "Suc k"]) simp
  qed
qed

lemma Max_insert_max:
  "finite A \<Longrightarrow> Max (insert (max x y) A) = Max (insert x (insert y A))"
  by (cases "A = {}") (simp_all add: max.assoc)

lemma for_new_topics_mark:
  "for_new_topics w s m ts = (Inr m', s') \<Longrightarrow> m' = Max (insert m (get_id ` set ts))"
proof (induction ts arbitrary: s m)
  case Nil
  then show ?case by simp
next
  case (Cons t ts)
  obtain r1 s1 where p: "process_topic w s t = (r1, s1)"
    by (cases "process_topic w s t")
  with Cons.prems obtain u where "r1 = Inr u"
    by (cases r1) simp_all
  with Cons.prems p have
    "for_new_topics w s1 (if get_id t > m then get_id t else m) ts = (Inr m', s')" by simp
  from Cons.IH [OF this] have
    "m' = Max (insert (if get_id t > m then get_id t else m) (get_id ` set ts))" .
  moreover have "(if get_id t > m then get_id t else m) = max m (get_id t)"
    by (simp add: max_def)
  ultimately show ?case
    by (simp only: Max_insert_max [OF finite_imageI [OF finite_set]] list.set image_insert)
qed

subsection \<open>The notification rule\<close>

lemma str_in_sublist: "str_in k s = sublist k s"
  by (induction s) (simp_all add: sublist_Cons_right)

lemma KEYWORDS_not_in_exam: "\<not> list_ex (\<lambda>k. str_in k title_exam) KEYWORDS"
  by (simp add: KEYWORDS_def title_exam_def ascii_def)

lemma KEYWORDS_in_hiring: "list_ex (\<lambda>k. str_in k title_hiring) KEYWORDS"
  by (simp add: KEYWORDS_def title_hiring_def)

text \<open>
  Claim C9. \<^verbatim>\<open>check_topic_condition\<close> is a function of the topic alone (and of the
  lower-casing of strings): it holds exactly when \<^verbatim>\<open>boardId\<close> is 459 and some keyword is a
  contiguous substring of the lower-cased title, an absent title counting as the empty
  string. On board 459 the hiring title matches and the exam title does not, for every
  lower-casing that leaves these caseless titles as they are.
\<close>

theorem check_topic_condition_rule:
  "(check_topic_condition lower t \<longleftrightarrow>
      boardId t = Some 459 \<and> (\<exists>k \<in> set KEYWORDS. sublist k (lower (get_or (title t) []))))
   \<and> (boardId t = Some 459 \<and> title t = Some title_hiring \<and> lower title_hiring = title_hiring
        \<longrightarrow> check_topic_condition lower t)
   \<and> (boardId t = Some 459 \<and> title t = Some title_exam \<and> lower title_exam = title_exam
        \<longrightarrow> \<not> check_topic_condition lower t)"
  using KEYWORDS_not_in_exam KEYWORDS_in_hiring
  by (simp add: check_topic_condition_def list_ex_iff str_in_sublist get_or_def)

theorem check_topic_condition_rule_witness:
  "check_topic_condition ascii_lower (mk_topic 104 459 title_hiring)
   \<and> \<not> check_topic_condition ascii_lower (mk_topic 104 459 title_exam)
   \<and> \<not> check_topic_condition ascii_lower (mk_topic 104 100 title_hiring)"
proof -
  have l1: "ascii_lower title_hiring = title_hiring"
    by (simp add: ascii_lower_def title_hiring_def)
  have l2: "ascii_lower title_exam = title_exam"
    by (simp add: ascii_lower_def title_exam_def)
  have a: "check_topic_condition ascii_lower (mk_topic 104 459 title_hiring)"
    using check_topic_condition_rule
      [THEN conjunct2, THEN conjunct1, of "mk_topic 104 459 title_hiring" ascii_lower] l1
    by (simp add: mk_topic_def)
  have b: "\<not> check_topic_condition ascii_lower (mk_topic 104 459 title_exam)"
    using check_topic_condition_rule
      [THEN conjunct2, THEN conjunct2, of "mk_topic 104 459 title_exam" ascii_lower] l2
    by (simp add: mk_topic_def)
  have c: "\<not> check_topic_condition ascii_lower (mk_topic 104 100 title_hiring)"
    using check_topic_condition_rule [THEN conjunct1, of ascii_lower "mk_topic 104 100 title_hiring"]
    by (simp add: mk_topic_def)
  from a b c show ?thesis by simp
qed

subsection \<open>One cycle\<close>

lemma get_new_topics_trace [simp]:
  "trace (snd (get_new_topics w s)) = trace s @ [E_request TopicNewGET]"
  "clock (snd (get_new_topics w s)) = Suc (clock s)"
  by (simp_all add: get_new_topics_def)

lemma login_trace:
  assumes "login w s = (ok, s')"
  shows "\<exists>d. trace s' = trace s @ E_login # d \<and> side_events d \<and> clock s \<le> clock s'"
  using assms
  by (auto simp: login_def Let_def side_events_def split: if_splits response.splits option.splits)

lemma fetch_topics_trace:
  assumes "fetch_topics w s = (r, s')"
  shows "\<exists>d. trace s' = trace s @ d \<and> evaluated d = [] \<and> dispatched d = [] \<and> sleeps d = 0
            \<and> clock s \<le> clock s'"
proof -
  obtain r1 s1 where g: "get_new_topics w s = (r1, s1)"
    by (cases "get_new_topics w s")
  then have t1: "trace s1 = trace s @ [E_request TopicNewGET]" "clock s1 = Suc (clock s)"
    using get_new_topics_trace [of w s] by simp_all
  show ?thesis
  proof (cases "r1 = Inr []")
    case False
    with assms g have "s' = s1"
      by (auto simp: fetch_topics_def split: sum.splits if_splits)
    with t1 show ?thesis by simp
  next
    case True
    obtain ok s2 where l: "login w s1 = (ok, s2)"
      by (cases "login w s1")
    from login_trace [OF l] obtain d where
      d: "trace s2 = trace s1 @ E_login # d" "side_events d" "clock s1 \<le> clock s2" by blast
    show ?thesis
    proof (cases ok)
      case False
      with assms g True l have "s' = s2" by (simp add: fetch_topics_def)
      with t1 d show ?thesis by (simp add: side_events_def)
    next
      case True
      with assms g \<open>r1 = Inr []\<close> l have "s' = snd (get_new_topics w s2)"
        by (simp add: fetch_topics_def)
      with t1 d show ?thesis by (simp add: side_events_def)
    qed
  qed
qed

lemma cycle_body_trace:
  assumes "cycle_body w s m = (r, s')"
  shows "\<exists>d k. trace s' = trace s @ d \<and> k \<le> length (new_topics m (fetched_batch w s))
            \<and> evaluated d = take k (new_topics m (fetched_batch w s))
            \<and> dispatched d =
                filter (check_topic_condition (str_lower w)) (take k (new_topics m (fetched_batch w s)))
            \<and> sleeps d = 0
            \<and> (\<forall>m'. r = Inr m' \<longrightarrow> k = length (new_topics m (fetched_batch w s)))"
proof -
  obtain r1 s1 where f: "fetch_topics w s = (r1, s1)"
    by (cases "fetch_topics w s")
  from fetch_topics_trace [OF f] obtain d1 where
    d1: "trace s1 = trace s @ d1" "evaluated d1 = []" "dispatched d1 = []" "sleeps d1 = 0" by blast
  show ?thesis
  proof (cases "\<exists>topics. r1 = Inr topics \<and> topics \<noteq> []")
    case False
    with assms f have s': "s' = s1"
      by (auto simp: cycle_body_def split: sum.splits if_splits)
    from False f have "new_topics m (fetched_batch w s) = []"
      by (cases r1) (auto simp: fetched_batch_def new_topics_def)
    with s' d1 show ?thesis by simp
  next
    case True
    then obtain topics where r1: "r1 = Inr topics" "topics \<noteq> []" by blast
    with f have b: "fetched_batch w s = topics" by (simp add: fetched_batch_def)
    from assms f r1 have "for_new_topics w s1 m (new_topics m topics) = (r, s')"
      by (simp add: cycle_body_def)
    from for_new_topics_trace [OF this] obtain d k where
      "trace s' = trace s1 @ d" "k \<le> length (new_topics m topics)"
      "evaluated d = take k (new_topics m topics)"
      "dispatched d = filter (check_topic_condition (str_lower w)) (take k (new_topics m topics))"
      "sleeps d = 0" "\<forall>m'. r = Inr m' \<longrightarrow> k = length (new_topics m topics)"
      by blast
    with d1 b show ?thesis
      by (intro exI [of _ "d1 @ d"] exI [of _ k]) simp
  qed
qed

lemma cycle_body_mark:
  assumes "cycle_body w s m = (Inr m', s')"
  shows "m' = Max (insert m (get_id ` {t \<in> set (fetched_batch w s). m < get_id t}))"
proof -
  obtain r1 s1 where f: "fetch_topics w s = (r1, s1)"
    by (cases "fetch_topics w s")
  show ?thesis
  proof (cases "\<exists>topics. r1 = Inr topics \<and> topics \<noteq> []")
    case False
    with assms f have "m' = m"
      by (auto simp: cycle_body_def split: sum.splits if_splits)
    moreover from False f have "fetched_batch w s = []"
      by (cases r1) (auto simp: fetched_batch_def)
    ultimately show ?thesis by simp
  next
    case True
    then obtain topics where r1: "r1 = Inr topics" "topics \<noteq> []" by blast
    with f have b: "fetched_batch w s = topics" by (simp add: fetched_batch_def)
    from assms f r1 have "for_new_topics w s1 m (new_topics m topics) = (Inr m', s')"
      by (simp add: cycle_body_def)
    from for_new_topics_mark [OF this] b show ?thesis
      by (simp add: new_topics_def)
  qed
qed

lemma cycle_unfold:
  "cycle w (s, m) =
     (snd (cycle_body w (emit (E_sleep INTERVAL) s) m),
      case fst (cycle_body w (emit (E_sleep INTERVAL) s) m) of Inl e \<Rightarrow> m | Inr m' \<Rightarrow> m')"
  by (simp add: cycle_def split: prod.splits sum.splits)

lemma cycle_mark_le: "m \<le> snd (cycle w (s, m))"
proof (cases "fst (cycle_body w (emit (E_sleep INTERVAL) s) m)")
  case (Inl e)
  then show ?thesis by (simp add: cycle_unfold)
next
  case (Inr m')
  then have "cycle_body w (emit (E_sleep INTERVAL) s) m = (Inr m', snd (cycle_body w (emit (E_sleep INTERVAL) s) m))"
    by (metis prod.collapse)
  from cycle_body_mark [OF this] Inr show ?thesis
    by (simp add: cycle_unfold)
qed

lemma main_loop_mark_le: "snd c \<le> snd (main_loop w n c)"
proof (induction n arbitrary: c)
  case 0
  then show ?case by simp
next
  case (Suc n)
  have "snd c \<le> snd (cycle w c)"
    using cycle_mark_le [of "snd c" w "fst c"] by simp
  also have "\<dots> \<le> snd (main_loop w n (cycle w c))" by (rule Suc.IH)
  finally show ?case by simp
qed

lemma main_loop_add: "main_loop w (n + k) c = main_loop w k (main_loop w n c)"
  by (induction n arbitrary: c) simp_all

subsection \<open>Login\<close>

text \<open>
  Claim C7. When \<^verbatim>\<open>client_id\<close> or \<^verbatim>\<open>client_secret\<close> is missing or empty, \<^verbatim>\<open>login\<close> returns
  false and its only step is the call itself: no request is issued and the clock of
  requests stands still. It returns false as well when the token request raises, when its
  status is not 200 and when its body cannot be decoded; and whenever it returns false the
  stored access token, refresh token and authorization header are the ones from before.
\<close>

theorem login_failure:
  "(\<not> truthy (client_id s) \<or> \<not> truthy (client_secret s) \<longrightarrow>
      login w s = (False, emit E_login s)
      \<and> since s (snd (login w s)) = [E_login] \<and> clock (snd (login w s)) = clock s)
   \<and> (\<not> truthy (client_id s) \<or> \<not> truthy (client_secret s)
        \<or> token_endpoint w (clock s) = ConnectionError
        \<or> (\<exists>st b. token_endpoint w (clock s) = Response st b \<and> st \<noteq> 200)
        \<or> (\<exists>st. token_endpoint w (clock s) = Response st None) \<longrightarrow> \<not> fst (login w s))
   \<and> (\<not> fst (login w s) \<longrightarrow>
        access_token (snd (login w s)) = access_token s
        \<and> refresh_token (snd (login w s)) = refresh_token s
        \<and> authorization (snd (login w s)) = authorization s)"
  by (auto simp: login_def Let_def since_def split: response.splits option.splits)

theorem login_failure_witness:
  "login w_down (s_old\<lparr>client_id := None\<rparr>) = (False, emit E_login (s_old\<lparr>client_id := None\<rparr>))
   \<and> clock (emit E_login (s_old\<lparr>client_id := None\<rparr>)) = 0
   \<and> trace (emit E_login (s_old\<lparr>client_id := None\<rparr>)) = [E_login]
   \<and> \<not> fst (login w_down s_old)
   \<and> access_token (snd (login w_down s_old)) = Some (ascii ''old'')
   \<and> refresh_token (snd (login w_down s_old)) = Some (ascii ''oldr'')"
proof -
  have a: "login w_down (s_old\<lparr>client_id := None\<rparr>) = (False, emit E_login (s_old\<lparr>client_id := None\<rparr>))"
    using login_failure [THEN conjunct1, of "s_old\<lparr>client_id := None\<rparr>" w_down]
    by (simp add: truthy_def)
  have b: "\<not> fst (login w_down s_old)"
    using login_failure [THEN conjunct2, THEN conjunct1, of s_old w_down]
    by (simp add: w_down_def s_old_def)
  have c: "access_token (snd (login w_down s_old)) = Some (ascii ''old'')
        \<and> refresh_token (snd (login w_down s_old)) = Some (ascii ''oldr'')"
    using login_failure [THEN conjunct2, THEN conjunct2, of w_down s_old] b
    by (simp add: s_old_def)
  from a b c show ?thesis by (simp add: emit_def s_old_def)
qed

subsection \<open>The high-water mark\<close>

text \<open>
  Claim C1. The mark never decreases: not over one cycle, whatever the servers answer
  (an empty fetch, a batch without a matching topic, an exception), not over any number
  of cycles of the loop, and not between two moments of a run of \<^verbatim>\<open>main\<close> that got past
  its initialization.
\<close>

theorem high_water_mark_monotone:
  "m \<le> snd (cycle w (s, m))
   \<and> snd c \<le> snd (main_loop w n c)
   \<and> snd (main_loop w n c) \<le> snd (main_loop w (n + k) c)
   \<and> (main w s n = Running s1 m1 \<and> main w s (n + k) = Running s2 m2 \<longrightarrow> m1 \<le> m2)"
proof -
  have a: "snd (main_loop w n c) \<le> snd (main_loop w (n + k) c)" for c
    using main_loop_mark_le [of "main_loop w n c" w k] by (simp add: main_loop_add)
  have "m1 \<le> m2" if "main w s n = Running s1 m1" "main w s (n + k) = Running s2 m2"
  proof -
    from that obtain m0 s0 where i: "initialize w s = (Some m0, s0)"
      by (auto simp: main_def split: prod.splits option.splits)
    from that i have "snd (main_loop w n (s0, m0)) = m1" "snd (main_loop w (n + k) (s0, m0)) = m2"
      by (auto simp: main_def split: prod.splits)
    with a [of "(s0, m0)"] show ?thesis by simp
  qed
  with a [of c] cycle_mark_le [of m w s] main_loop_mark_le [of c w n] show ?thesis
    by blast
qed

theorem high_water_mark_monotone_witness:
  "main w_scenario s_fresh 0 = Running (snd (initialize w_scenario s_fresh)) 103
   \<and> main w_scenario s_fresh (0 + 2) =
       Running (fst (main_loop w_scenario 2 (snd (initialize w_scenario s_fresh), 103))) 105
   \<and> (103::int) \<le> 105"
proof -
  have a: "main w_scenario s_fresh 0 = Running (snd (initialize w_scenario s_fresh)) 103"
    by code_simp
  have b: "main w_scenario s_fresh (0 + 2) =
      Running (fst (main_loop w_scenario 2 (snd (initialize w_scenario s_fresh), 103))) 105"
    by code_simp
  have c: "(103::int) \<le> 105"
    by (rule high_water_mark_monotone
        [THEN conjunct2, THEN conjunct2, THEN conjunct2, THEN mp, OF conjI [OF a b]])
  from a b c show ?thesis by (intro conjI)
qed

subsection \<open>Selection, order and the new mark\<close>

lemma cycle_trace:
  assumes "cycle w (s, m) = (s', m')"
  shows "\<exists>k. k \<le> length (new_topics m (fetched_batch w (emit (E_sleep INTERVAL) s)))
            \<and> evaluated (since s s') = take k (new_topics m (fetched_batch w (emit (E_sleep INTERVAL) s)))
            \<and> dispatched (since s s') =
                filter (check_topic_condition (str_lower w))
                  (take k (new_topics m (fetched_batch w (emit (E_sleep INTERVAL) s))))
            \<and> sleeps (since s s') = 1
            \<and> (\<forall>x. fst (cycle_body w (emit (E_sleep INTERVAL) s) m) = Inr x \<longrightarrow>
                  k = length (new_topics m (fetched_batch w (emit (E_sleep INTERVAL) s))))"
proof -
  let ?s0 = "emit (E_sleep INTERVAL) s"
  obtain r where b: "cycle_body w ?s0 m = (r, s')"
    using assms by (cases "cycle_body w ?s0 m") (simp add: cycle_unfold)
  from cycle_body_trace [OF b] obtain d k where
    dk: "trace s' = trace ?s0 @ d" "k \<le> length (new_topics m (fetched_batch w ?s0))"
        "evaluated d = take k (new_topics m (fetched_batch w ?s0))"
        "dispatched d = filter (check_topic_condition (str_lower w)) (take k (new_topics m (fetched_batch w ?s0)))"
        "sleeps d = 0" "\<forall>m'. r = Inr m' \<longrightarrow> k = length (new_topics m (fetched_batch w ?s0))"
    by blast
  from dk(1) have "since s s' = E_sleep INTERVAL # d"
    by (simp add: since_def)
  with dk b show ?thesis
    by (intro exI [of _ k]) simp
qed

lemma set_new_topics: "set (new_topics m topics) = {t \<in> set topics. m < get_id t}"
  by (auto simp: new_topics_def)



text \<open>
  Claim C2. The topics selected from a fetched batch are exactly those whose id is above
  the mark, each as often as the batch holds it. Over one cycle the topics evaluated are
  an initial part of that selection (all of it when the cycle ends without an exception),
  the topics dispatched are among the evaluated ones, and no topic with an id at or below
  the mark held before the cycle is evaluated or dispatched.
\<close>

theorem candidates_are_the_newer_topics:
  "mset (new_topics m topics) = filter_mset (\<lambda>t. m < get_id t) (mset topics)
   \<and> (cycle w (s, m) = (s', m') \<longrightarrow>
        prefix (evaluated (since s s')) (new_topics m (fetched_batch w (emit (E_sleep INTERVAL) s)))
        \<and> set (dispatched (since s s')) \<subseteq> set (evaluated (since s s'))
        \<and> (\<forall>t \<in> set (evaluated (since s s')).
              m < get_id t \<and> t \<in> set (fetched_batch w (emit (E_sleep INTERVAL) s)))
        \<and> (\<forall>t. get_id t \<le> m \<longrightarrow>
              t \<notin> set (evaluated (since s s')) \<and> t \<notin> set (dispatched (since s s')))
        \<and> ((\<exists>x. fst (cycle_body w (emit (E_sleep INTERVAL) s) m) = Inr x) \<longrightarrow>
              evaluated (since s s') = new_topics m (fetched_batch w (emit (E_sleep INTERVAL) s))))"
proof -
  have sel: "mset (new_topics m topics) = filter_mset (\<lambda>t. m < get_id t) (mset topics)"
    by (simp add: new_topics_def)
  have cyc: ?thesis if c: "cycle w (s, m) = (s', m')"
  proof -
    let ?B = "fetched_batch w (emit (E_sleep INTERVAL) s)"
    from cycle_trace [OF c] obtain k where
      k: "evaluated (since s s') = take k (new_topics m ?B)"
         "dispatched (since s s') = filter (check_topic_condition (str_lower w)) (take k (new_topics m ?B))"
         "\<forall>x. fst (cycle_body w (emit (E_sleep INTERVAL) s) m) = Inr x \<longrightarrow> k = length (new_topics m ?B)"
      by blast
    have p: "prefix (evaluated (since s s')) (new_topics m ?B)"
      by (simp add: k take_is_prefix)
    have sub: "set (evaluated (since s s')) \<subseteq> {t \<in> set ?B. m < get_id t}"
      using set_take_subset [of k "new_topics m ?B"] by (simp add: k set_new_topics)
    have dsub: "set (dispatched (since s s')) \<subseteq> set (evaluated (since s s'))"
      by (auto simp: k)
    have full: "evaluated (since s s') = new_topics m ?B"
      if "\<exists>x. fst (cycle_body w (emit (E_sleep INTERVAL) s) m) = Inr x"
      using that k by auto
    from sel p sub dsub full show ?thesis
      by (auto simp del: mset_filter)
  qed
  from sel cyc show ?thesis by blast
qed

theorem candidates_are_the_newer_topics_witness:
  "cycle w_scenario (s_ready, 103) = (s_cycled, 105)
   \<and> fetched_batch w_scenario (emit (E_sleep INTERVAL) s_ready) = ids_topics [102, 103, 104, 105]
   \<and> evaluated (since s_ready s_cycled) = ids_topics [104, 105]
   \<and> 103 < get_id (mk_topic 104 100 (ascii ''t''))
   \<and> mk_topic 104 100 (ascii ''t'') \<in> set (ids_topics [102, 103, 104, 105])"
proof -
  have c: "cycle w_scenario (s_ready, 103) = (s_cycled, 105)"
    by code_simp
  have b: "fetched_batch w_scenario (emit (E_sleep INTERVAL) s_ready) = ids_topics [102, 103, 104, 105]"
    by code_simp
  have e: "evaluated (since s_ready s_cycled) = ids_topics [104, 105]"
    by code_simp
  have a: "\<forall>t \<in> set (evaluated (since s_ready s_cycled)).
          103 < get_id t \<and> t \<in> set (fetched_batch w_scenario (emit (E_sleep INTERVAL) s_ready))"
    by (rule candidates_are_the_newer_topics
        [THEN conjunct2, THEN mp, OF c, THEN conjunct2, THEN conjunct2, THEN conjunct1])
  have "mk_topic 104 100 (ascii ''t'') \<in> set (evaluated (since s_ready s_cycled))"
    by (simp add: e ids_topics_def)
  from bspec [OF a this] have
    "103 < get_id (mk_topic 104 100 (ascii ''t''))
     \<and> mk_topic 104 100 (ascii ''t'') \<in> set (ids_topics [102, 103, 104, 105])"
    by (simp only: b)
  with c b e show ?thesis by (intro conjI) simp_all
qed

text \<open>
  Claim C5. A cycle that ends without an exception leaves the mark at the greatest id of
  its fetched batch that is above the old mark, and at the old mark when there is none;
  whether a topic matched the rule plays no part. In the scenario the baseline is 103,
  the next cycle fetches ids 102 to 105, evaluates 104 and 105 in this order and ends
  with mark 105.
\<close>

theorem mark_after_completed_cycle:
  "(cycle_body w (emit (E_sleep INTERVAL) s) m = (Inr m', s') \<longrightarrow>
      cycle w (s, m) = (s', m')
      \<and> m' = Max (insert m (get_id ` {t \<in> set (fetched_batch w (emit (E_sleep INTERVAL) s)). m < get_id t})))
   \<and> initialize w_scenario s_fresh = (Some 103, s_ready)
   \<and> fetched_batch w_scenario (emit (E_sleep INTERVAL) s_ready) = ids_topics [102, 103, 104, 105]
   \<and> new_topics 103 (ids_topics [102, 103, 104, 105]) = ids_topics [104, 105]
   \<and> evaluated (since s_ready s_cycled) = ids_topics [104, 105]
   \<and> cycle w_scenario (s_ready, 103) = (s_cycled, 105)"
proof -
  have g: "cycle w (s, m) = (s', m')
      \<and> m' = Max (insert m (get_id ` {t \<in> set (fetched_batch w (emit (E_sleep INTERVAL) s)). m < get_id t}))"
    if b: "cycle_body w (emit (E_sleep INTERVAL) s) m = (Inr m', s')"
    using cycle_body_mark [OF b] b by (simp add: cycle_unfold)
  have "initialize w_scenario s_fresh = (Some 103, s_ready)"
    by code_simp
  moreover have "fetched_batch w_scenario (emit (E_sleep INTERVAL) s_ready) = ids_topics [102, 103, 104, 105]"
    by code_simp
  moreover have "new_topics 103 (ids_topics [102, 103, 104, 105]) = ids_topics [104, 105]"
    by code_simp
  moreover have "evaluated (since s_ready s_cycled) = ids_topics [104, 105]"
    by code_simp
  moreover have "cycle w_scenario (s_ready, 103) = (s_cycled, 105)"
    by code_simp
  ultimately show ?thesis using g by blast
qed

theorem mark_after_completed_cycle_witness:
  "cycle_body w_scenario (emit (E_sleep INTERVAL) s_ready) 103 = (Inr 105, s_cycled)
   \<and> cycle w_scenario (s_ready, 103) = (s_cycled, 105)
   \<and> (105::int) = Max (insert 103 (get_id ` {t \<in> set (ids_topics [102, 103, 104, 105]). 103 < get_id t}))"
proof -
  have b: "cycle_body w_scenario (emit (E_sleep INTERVAL) s_ready) 103 = (Inr 105, s_cycled)"
    by code_simp
  have f: "fetched_batch w_scenario (emit (E_sleep INTERVAL) s_ready) = ids_topics [102, 103, 104, 105]"
    by code_simp
  note r = mark_after_completed_cycle [THEN conjunct1, THEN mp, OF b]
  from r [THEN conjunct2] have
    "(105::int) = Max (insert 103 (get_id ` {t \<in> set (ids_topics [102, 103, 104, 105]). 103 < get_id t}))"
    by (simp only: f)
  with b r [THEN conjunct1] show ?thesis by (intro conjI)
qed





subsection \<open>Recovery from an empty fetch\<close>

lemma fetch_topics_after_empty:
  assumes "fst (get_new_topics w s) = Inr []"
  shows "fetch_topics w s =
     (case login w (snd (get_new_topics w s)) of
        (True, s2) \<Rightarrow> get_new_topics w s2
      | (False, s2) \<Rightarrow> (Inr [], s2))"
  using assms by (cases "get_new_topics w s") (simp add: fetch_topics_def)

lemma fetch_topics_empty_counts:
  assumes "fst (get_new_topics w s) = Inr []" and "fetch_topics w s = (r, s1)"
  shows "\<exists>d. trace s1 = trace s @ d \<and> logins d = 1
            \<and> fetches d = (if fst (login w (snd (get_new_topics w s))) then 2 else 1)"
proof -
  let ?s0 = "snd (get_new_topics w s)"
  obtain ok s2 where l: "login w ?s0 = (ok, s2)"
    by (cases "login w ?s0")
  from login_trace [OF l] obtain d where
    d: "trace s2 = trace s @ [E_request TopicNewGET] @ E_login # d" "side_events d"
    by auto
  show ?thesis
  proof (cases ok)
    case True
    with assms l have "s1 = snd (get_new_topics w s2)"
      by (simp add: fetch_topics_after_empty)
    with d l True show ?thesis by (simp add: side_events_def)
  next
    case False
    with assms l have "s1 = s2"
      by (simp add: fetch_topics_after_empty)
    with d l False show ?thesis by (simp add: side_events_def)
  qed
qed

lemma cycle_body_after_fetch:
  assumes "cycle_body w s m = (r, s')" and "fetch_topics w s = (r1, s1)"
  shows "\<exists>d. trace s' = trace s1 @ d \<and> logins d = 0 \<and> fetches d = 0"
proof (cases "\<exists>topics. r1 = Inr topics \<and> topics \<noteq> []")
  case False
  with assms have "s' = s1"
    by (auto simp: cycle_body_def split: sum.splits if_splits)
  then show ?thesis by simp
next
  case True
  then obtain topics where "r1 = Inr topics" "topics \<noteq> []" by blast
  with assms have "for_new_topics w s1 m (new_topics m topics) = (r, s')"
    by (simp add: cycle_body_def)
  from for_new_topics_trace [OF this] show ?thesis by blast
qed

text \<open>
  Claim C4. When the fetch of a cycle returns the empty list, \<^verbatim>\<open>login\<close> is called exactly
  once in that cycle; the newest topics are requested once more exactly when that login
  returned true, and not again; and when the result is still empty the cycle ends with
  the mark unchanged and without any exception, so none reaches the cycle boundary.
\<close>

theorem empty_fetch_recovery:
  "fst (get_new_topics w (emit (E_sleep INTERVAL) s)) = Inr [] \<and> cycle w (s, m) = (s', m') \<longrightarrow>
     logins (since s s') = 1
     \<and> fetches (since s s') =
         (if fst (login w (snd (get_new_topics w (emit (E_sleep INTERVAL) s)))) then 2 else 1)
     \<and> (fst (fetch_topics w (emit (E_sleep INTERVAL) s)) = Inr [] \<longrightarrow>
           m' = m \<and> fst (cycle_body w (emit (E_sleep INTERVAL) s) m) = Inr m)"
proof (intro impI, elim conjE)
  let ?s0 = "emit (E_sleep INTERVAL) s"
  assume e: "fst (get_new_topics w ?s0) = Inr []" and c: "cycle w (s, m) = (s', m')"
  obtain r1 s1 where f: "fetch_topics w ?s0 = (r1, s1)"
    by (cases "fetch_topics w ?s0")
  obtain r where b: "cycle_body w ?s0 m = (r, s')"
    using c by (cases "cycle_body w ?s0 m") (simp add: cycle_unfold)
  from fetch_topics_empty_counts [OF e f] obtain d1 where
    d1: "trace s1 = trace ?s0 @ d1" "logins d1 = 1"
        "fetches d1 = (if fst (login w (snd (get_new_topics w ?s0))) then 2 else 1)"
    by blast
  from cycle_body_after_fetch [OF b f] obtain d2 where
    d2: "trace s' = trace s1 @ d2" "logins d2 = 0" "fetches d2 = 0"
    by blast
  from d1 d2 have "since s s' = E_sleep INTERVAL # d1 @ d2"
    by (simp add: since_def)
  with d1 d2 have counts: "logins (since s s') = 1"
      "fetches (since s s') = (if fst (login w (snd (get_new_topics w ?s0))) then 2 else 1)"
    by simp_all
  have still: "m' = m \<and> fst (cycle_body w ?s0 m) = Inr m" if "fst (fetch_topics w ?s0) = Inr []"
  proof -
    from that f have "cycle_body w ?s0 m = (Inr m, s1)"
      by (simp add: cycle_body_def)
    with c show ?thesis by (simp add: cycle_unfold)
  qed
  from counts still
  show "logins (since s s') = 1
     \<and> fetches (since s s') = (if fst (login w (snd (get_new_topics w ?s0))) then 2 else 1)
     \<and> (fst (fetch_topics w ?s0) = Inr [] \<longrightarrow> m' = m \<and> fst (cycle_body w ?s0 m) = Inr m)"
    by blast
qed

theorem empty_fetch_recovery_witness:
  "fst (get_new_topics w_quiet (emit (E_sleep INTERVAL) s_fresh)) = Inr []
   \<and> cycle w_quiet (s_fresh, 7) = (fst (cycle w_quiet (s_fresh, 7)), 7)
   \<and> fst (login w_quiet (snd (get_new_topics w_quiet (emit (E_sleep INTERVAL) s_fresh))))
   \<and> logins (since s_fresh (fst (cycle w_quiet (s_fresh, 7)))) = 1
   \<and> fetches (since s_fresh (fst (cycle w_quiet (s_fresh, 7)))) = 2
   \<and> fst (get_new_topics w_down (emit (E_sleep INTERVAL) s_old)) = Inr []
   \<and> \<not> fst (login w_down (snd (get_new_topics w_down (emit (E_sleep INTERVAL) s_old))))
   \<and> logins (since s_old (fst (cycle w_down (s_old, 7)))) = 1
   \<and> fetches (since s_old (fst (cycle w_down (s_old, 7)))) = 1
   \<and> snd (cycle w_down (s_old, 7)) = 7"
proof -
  have e1: "fst (get_new_topics w_quiet (emit (E_sleep INTERVAL) s_fresh)) = Inr []"
    by code_simp
  have c1: "cycle w_quiet (s_fresh, 7) = (fst (cycle w_quiet (s_fresh, 7)), 7)"
    by code_simp
  have l1: "fst (login w_quiet (snd (get_new_topics w_quiet (emit (E_sleep INTERVAL) s_fresh))))"
    by code_simp
  note r1 = empty_fetch_recovery [THEN mp, OF conjI [OF e1 c1]]
  have e2: "fst (get_new_topics w_down (emit (E_sleep INTERVAL) s_old)) = Inr []"
    by code_simp
  have c2: "cycle w_down (s_old, 7) = (fst (cycle w_down (s_old, 7)), snd (cycle w_down (s_old, 7)))"
    by simp
  have l2: "\<not> fst (login w_down (snd (get_new_topics w_down (emit (E_sleep INTERVAL) s_old))))"
    by code_simp
  have f2: "fst (fetch_topics w_down (emit (E_sleep INTERVAL) s_old)) = Inr []"
    by code_simp
  note r2 = empty_fetch_recovery [THEN mp, OF conjI [OF e2 c2]]
  from r1 l1 r2 l2 f2 e1 c1 e2 show ?thesis by simp
qed

subsection \<open>What a run reads of the world\<close>

lemma agree_from_mono: "agree_from n w w' \<Longrightarrow> n \<le> k \<Longrightarrow> agree_from k w w'"
  by (simp add: agree_from_def)

lemma login_frame: "agree_from (clock s) w w' \<Longrightarrow> login w s = login w' s"
  by (simp add: login_def agree_from_def Let_def)

lemma get_new_topics_frame: "agree_from (clock s) w w' \<Longrightarrow> get_new_topics w s = get_new_topics w' s"
  by (simp add: get_new_topics_def agree_from_def)

lemma refresh_board_map_frame:
  "agree_from (clock s) w w' \<Longrightarrow> refresh_board_map w s = refresh_board_map w' s"
  by (simp add: refresh_board_map_def get_all_boards_def agree_from_def)

lemma get_board_name_frame:
  assumes "agree_from (clock s) w w'"
  shows "get_board_name w s b = get_board_name w' s b"
proof -
  have r1: "refresh_board_map w s = refresh_board_map w' s"
    by (rule refresh_board_map_frame [OF assms])
  have r2: "refresh_board_map w s1 = refresh_board_map w' s1" if "clock s \<le> clock s1" for s1
    by (rule refresh_board_map_frame [OF agree_from_mono [OF assms that]])
  have r3: "refresh_board_map w (refresh_board_map w' s) = refresh_board_map w' (refresh_board_map w' s)"
    by (rule r2) simp
  show ?thesis
    by (simp add: get_board_name_def Let_def r1 r3)
qed

lemma fetch_content_frame:
  "agree_from (clock s) w w' \<Longrightarrow> fetch_content w s i = fetch_content w' s i"
  by (simp add: fetch_content_def get_posts_def agree_from_def)

lemma send_dingtalk_message_frame:
  "agree_from (clock s) w w' \<Longrightarrow> send_dingtalk_message w s msg = send_dingtalk_message w' s msg"
  by (simp add: send_dingtalk_message_def agree_from_def)

lemma process_topic_frame:
  assumes "agree_from (clock s) w w'"
  shows "process_topic w s t = process_topic w' s t"
proof -
  let ?s0 = "emit (E_evaluate t) s"
  have a0: "agree_from (clock ?s0) w w'" using assms by simp
  have g: "get_board_name w ?s0 (boardId t) = get_board_name w' ?s0 (boardId t)"
    by (rule get_board_name_frame [OF a0])
  obtain n s1 where g1: "get_board_name w' ?s0 (boardId t) = (n, s1)"
    by (cases "get_board_name w' ?s0 (boardId t)")
  from get_board_name_trace [OF g1] have c1: "clock s \<le> clock s1" by auto
  have f: "fetch_content w s1 (get_id t) = fetch_content w' s1 (get_id t)"
    by (rule fetch_content_frame [OF agree_from_mono [OF assms c1]])
  obtain c s2 where f1: "fetch_content w' s1 (get_id t) = (c, s2)"
    by (cases "fetch_content w' s1 (get_id t)")
  from fetch_content_trace [OF f1] c1 have c2: "clock s \<le> clock s2" by simp
  have "agree_from (clock (emit (E_dispatch t (format_message t n c)) s2)) w w'"
    using agree_from_mono [OF assms c2] by simp
  from send_dingtalk_message_frame [OF this] have
    sd: "send_dingtalk_message w (emit (E_dispatch t (format_message t n c)) s2) (format_message t n c)
       = send_dingtalk_message w' (emit (E_dispatch t (format_message t n c)) s2) (format_message t n c)" .
  have l: "str_lower w = str_lower w'" using assms by (simp add: agree_from_def)
  show ?thesis
    by (simp add: process_topic_def Let_def g g1 f f1 sd l)
qed

lemma for_new_topics_frame:
  "agree_from (clock s) w w' \<Longrightarrow> for_new_topics w s m ts = for_new_topics w' s m ts"
proof (induction ts arbitrary: s m)
  case Nil
  then show ?case by simp
next
  case (Cons t ts)
  have p: "process_topic w s t = process_topic w' s t"
    by (rule process_topic_frame [OF Cons.prems])
  obtain r1 s1 where p1: "process_topic w' s t = (r1, s1)"
    by (cases "process_topic w' s t")
  from process_topic_trace [OF p1] have "clock s \<le> clock s1" by blast
  from Cons.IH [OF agree_from_mono [OF Cons.prems this]] p p1 show ?case
    by (cases r1) simp_all
qed

lemma cycle_body_first_fetch:
  assumes "get_new_topics w s = get_new_topics w' s" and "agree_from (Suc (clock s)) w w'"
  shows "cycle_body w s m = cycle_body w' s m"
proof -
  let ?s1 = "snd (get_new_topics w' s)"
  have a1: "agree_from (clock ?s1) w w'" using assms(2) by simp
  have l: "login w ?s1 = login w' ?s1"
    by (rule login_frame [OF a1])
  obtain ok s2 where l1: "login w' ?s1 = (ok, s2)"
    by (cases "login w' ?s1")
  from login_trace [OF l1] have "Suc (clock s) \<le> clock s2" by auto
  from agree_from_mono [OF assms(2) this] have g2: "get_new_topics w s2 = get_new_topics w' s2"
    by (rule get_new_topics_frame)
  have f: "fetch_topics w s = fetch_topics w' s"
  proof (cases "get_new_topics w' s")
    case (Pair r1 s1)
    with l l1 g2 show ?thesis
      by (cases r1; cases ok) (auto simp: fetch_topics_def assms(1))
  qed
  obtain r3 s3 where f1: "fetch_topics w' s = (r3, s3)"
    by (cases "fetch_topics w' s")
  have "Suc (clock s) \<le> clock s3"
  proof (cases "get_new_topics w' s")
    case (Pair r1 s1)
    then have c1: "clock s1 = Suc (clock s)"
      using get_new_topics_trace(2) [of w' s] by simp
    show ?thesis
    proof (cases "r1 = Inr []")
      case False
      with Pair f1 have "s3 = s1"
        by (auto simp: fetch_topics_def split: sum.splits if_splits)
      with c1 show ?thesis by simp
    next
      case True
      with Pair l1 f1 have "s3 = s2 \<or> s3 = snd (get_new_topics w' s2)"
        by (cases ok) (simp_all add: fetch_topics_def)
      with \<open>Suc (clock s) \<le> clock s2\<close> show ?thesis by auto
    qed
  qed
  from for_new_topics_frame [OF agree_from_mono [OF assms(2) this]] f f1 show ?thesis
    by (simp add: cycle_body_def split: sum.splits)
qed

lemma cycle_empty_fetch_counts:
  assumes "fst (get_new_topics w (emit (E_sleep INTERVAL) s)) = Inr []"
  shows "logins (since s (fst (cycle w (s, m)))) = 1"
proof -
  let ?s0 = "emit (E_sleep INTERVAL) s"
  obtain r1 s1 where f: "fetch_topics w ?s0 = (r1, s1)"
    by (cases "fetch_topics w ?s0")
  obtain r s' where b: "cycle_body w ?s0 m = (r, s')"
    by (cases "cycle_body w ?s0 m")
  from fetch_topics_empty_counts [OF assms f] obtain d1 where
    d1: "trace s1 = trace ?s0 @ d1" "logins d1 = 1" by blast
  from cycle_body_after_fetch [OF b f] obtain d2 where
    d2: "trace s' = trace s1 @ d2" "logins d2 = 0" by blast
  from d1 d2 have "since s s' = E_sleep INTERVAL # d1 @ d2"
    by (simp add: since_def)
  with d1 d2 b show ?thesis by (simp add: cycle_unfold)
qed

text \<open>
  Claim C10. A response to the newest-topics request with any status other than 200 makes
  \<^verbatim>\<open>get_new_topics\<close> return the empty list, without an exception: the same value and the
  same state as for a 200 response that carries an empty list. The cycle that receives it
  cannot tell the two apart: the whole cycle runs as it would in the world where that one
  response is the empty list, and it calls \<^verbatim>\<open>login\<close> exactly once.
\<close>

theorem non_200_is_an_empty_list:
  "topic_new w (clock s) = Response st body \<and> st \<noteq> 200 \<longrightarrow>
     get_new_topics w s = (Inr [], request TopicNewGET s)
     \<and> get_new_topics (w\<lparr>topic_new := (topic_new w)(clock s := Response 200 (Some []))\<rparr>) s
         = get_new_topics w s
     \<and> cycle (w\<lparr>topic_new := (topic_new w)(clock s := Response 200 (Some []))\<rparr>) (s, m)
         = cycle w (s, m)
     \<and> logins (since s (fst (cycle w (s, m)))) = 1"
proof (intro impI, elim conjE)
  let ?w' = "w\<lparr>topic_new := (topic_new w)(clock s := Response 200 (Some []))\<rparr>"
  let ?s0 = "emit (E_sleep INTERVAL) s"
  assume r: "topic_new w (clock s) = Response st body" and st: "st \<noteq> 200"
  have g: "get_new_topics w s = (Inr [], request TopicNewGET s)"
    using r st by (simp add: get_new_topics_def json_or_empty_def)
  have g': "get_new_topics ?w' s = get_new_topics w s"
    using r st by (simp add: get_new_topics_def json_or_empty_def)
  have g0: "get_new_topics ?w' ?s0 = get_new_topics w ?s0"
    using r st by (simp add: get_new_topics_def json_or_empty_def)
  have "agree_from (Suc (clock ?s0)) ?w' w"
    by (simp add: agree_from_def)
  from cycle_body_first_fetch [OF g0 this] have c: "cycle ?w' (s, m) = cycle w (s, m)"
    by (simp add: cycle_unfold)
  have "fst (get_new_topics w ?s0) = Inr []"
    using r st by (simp add: get_new_topics_def json_or_empty_def)
  from cycle_empty_fetch_counts [OF this] have "logins (since s (fst (cycle w (s, m)))) = 1" .
  with g g' c
  show "get_new_topics w s = (Inr [], request TopicNewGET s)
     \<and> get_new_topics ?w' s = get_new_topics w s
     \<and> cycle ?w' (s, m) = cycle w (s, m)
     \<and> logins (since s (fst (cycle w (s, m)))) = 1"
    by (intro conjI)
qed

theorem non_200_is_an_empty_list_witness:
  "topic_new w_down (clock s_old) = Response 500 None
   \<and> get_new_topics w_down s_old = (Inr [], request TopicNewGET s_old)
   \<and> cycle (w_down\<lparr>topic_new := (topic_new w_down)(clock s_old := Response 200 (Some []))\<rparr>) (s_old, 7)
       = cycle w_down (s_old, 7)
   \<and> logins (since s_old (fst (cycle w_down (s_old, 7)))) = 1"
proof -
  have r: "topic_new w_down (clock s_old) = Response 500 None"
    by (simp add: w_down_def)
  have st: "(500::int) \<noteq> 200" by simp
  note t = non_200_is_an_empty_list [THEN mp, OF conjI [OF r st]]
  from r t [THEN conjunct1] t [THEN conjunct2, THEN conjunct2] show ?thesis
    by (intro conjI) simp_all
qed

subsection \<open>Initialization\<close>

lemma initialize_after_login:
  assumes "login w s = (True, s1)"
  shows "initialize w s =
     (case fst (get_new_topics w s1) of
        Inl e \<Rightarrow> None
      | Inr topics \<Rightarrow> (if topics \<noteq> [] then Some (fold max (tl (map get_id topics)) (hd (map get_id topics))) else Some 0),
      snd (get_new_topics w s1))"
proof (cases "get_new_topics w s1")
  case (Pair r s2)
  show ?thesis
  proof (cases r)
    case (Inl e)
    with Pair assms show ?thesis by (simp add: initialize_def)
  next
    case (Inr topics)
    with Pair assms show ?thesis
      by (cases topics) (simp_all add: initialize_def)
  qed
qed

text \<open>
  The path that aborts: after a successful initial login, a first call of
  \<^verbatim>\<open>get_new_topics\<close> that raises makes \<^verbatim>\<open>main\<close> return, and no cycle is started.
\<close>

lemma raising_baseline_fetch_exits:
  assumes "login w s = (True, s1)" and "fst (get_new_topics w s1) = Inl e"
  shows "main w s n = Exited (snd (get_new_topics w s1))
         \<and> sleeps (since s (snd (get_new_topics w s1))) = 0"
proof -
  let ?s2 = "snd (get_new_topics w s1)"
  from login_trace [OF assms(1)] obtain d where d: "trace s1 = trace s @ E_login # d" "side_events d"
    by blast
  then have "since s ?s2 = E_login # d @ [E_request TopicNewGET]"
    by (simp add: since_def)
  with d have "sleeps (since s ?s2) = 0"
    by (simp add: side_events_def)
  moreover from initialize_after_login [OF assms(1)] assms(2) have "main w s n = Exited ?s2"
    by (simp add: main_def)
  ultimately show ?thesis by simp
qed

text \<open>
  Claim C3, at the input where the code departs from it. The initial login succeeds and
  the server answers the baseline fetch with status 503. \<^verbatim>\<open>get_new_topics\<close> turns that
  answer into the empty list, so nothing is raised: the initialization keeps the baseline
  0 and \<^verbatim>\<open>main\<close> starts the loop instead of returning. Its first cycle then takes the
  topics 101 to 103, which existed before the start, for new ones: it evaluates all three
  and moves the mark to 103. When the same request raises, \<^verbatim>\<open>main\<close> does return.
\<close>

theorem baseline_fetch_503_enters_loop:
  "login w_outage s_fresh = (True, snd (login w_outage s_fresh))
   \<and> topic_new w_outage (clock (snd (login w_outage s_fresh))) = Response 503 None
   \<and> get_new_topics w_outage (snd (login w_outage s_fresh))
       = (Inr [], snd (initialize w_outage s_fresh))
   \<and> initialize w_outage s_fresh = (Some 0, snd (initialize w_outage s_fresh))
   \<and> main w_outage s_fresh 1
       = Running (fst (main_loop w_outage 1 (snd (initialize w_outage s_fresh), 0))) 103
   \<and> sleeps (trace (fst (main_loop w_outage 1 (snd (initialize w_outage s_fresh), 0)))) = 1
   \<and> evaluated (trace (fst (main_loop w_outage 1 (snd (initialize w_outage s_fresh), 0))))
       = ids_topics [101, 102, 103]
   \<and> topic_new w_unreachable (clock (snd (login w_unreachable s_fresh))) = ConnectionError
   \<and> main w_unreachable s_fresh 1
       = Exited (snd (get_new_topics w_unreachable (snd (login w_unreachable s_fresh))))"
  by code_simp

theorem baseline_fetch_503_enters_loop_witness:
  "initialize w_outage s_fresh = (Some 0, snd (initialize w_outage s_fresh))
   \<and> sleeps (trace (fst (main_loop w_outage 1 (snd (initialize w_outage s_fresh), 0)))) = 1
   \<and> evaluated (trace (fst (main_loop w_outage 1 (snd (initialize w_outage s_fresh), 0))))
       = ids_topics [101, 102, 103]"
proof -
  note t = baseline_fetch_503_enters_loop [THEN conjunct2, THEN conjunct2, THEN conjunct2]
  have a: "initialize w_outage s_fresh = (Some 0, snd (initialize w_outage s_fresh))"
    by (rule t [THEN conjunct1])
  have b: "sleeps (trace (fst (main_loop w_outage 1 (snd (initialize w_outage s_fresh), 0)))) = 1"
    by (rule t [THEN conjunct2, THEN conjunct2, THEN conjunct1])
  have c: "evaluated (trace (fst (main_loop w_outage 1 (snd (initialize w_outage s_fresh), 0))))
      = ids_topics [101, 102, 103]"
    by (rule t [THEN conjunct2, THEN conjunct2, THEN conjunct2, THEN conjunct1])
  from a b c show ?thesis by (intro conjI)
qed

subsection \<open>The board directory\<close>

lemma or_else_truthy: "truthy x \<Longrightarrow> Some (or_else x d) = x"
  by (cases x) (simp_all add: truthy_def or_else_def)

lemma or_else_not_truthy: "\<not> truthy x \<Longrightarrow> or_else x d = d"
  by (cases x) (simp_all add: truthy_def or_else_def)

lemma truthy_dict_get_nonempty: "truthy (dict_get m k) \<Longrightarrow> m \<noteq> []"
  by (auto simp: truthy_def dict_get_def)

lemma unknown_board_nonempty: "unknown_board b \<noteq> []"
  by (simp add: unknown_board_def ascii_def)

text \<open>
  Claim C8, as the code has it. \<^verbatim>\<open>get_board_name\<close> always returns a non-empty string. When
  the directory, as it is at the return, holds a non-empty name for the id, that name is
  returned. Otherwise the placeholder is returned, and then both lookups have failed:
  the first one, made after the fill of an empty directory, and the second one, made
  after exactly one more refresh; so the boards were requested twice when the directory
  was empty at the call and once when it was not. A call that requests nothing returns
  the name stored at the call. An id stored with a non-empty name gets that name, and
  the call changes nothing.
\<close>

theorem get_board_name_lookup:
  "get_board_name w s b = (r, s') \<longrightarrow>
     r \<noteq> []
     \<and> (truthy (dict_get (board_map s') b) \<longrightarrow> dict_get (board_map s') b = Some r)
     \<and> (\<not> truthy (dict_get (board_map s') b) \<longrightarrow>
           r = unknown_board b
           \<and> \<not> truthy (dict_get (board_map (if board_map s = [] then refresh_board_map w s else s)) b)
           \<and> board_fetches (since s s') = (if board_map s = [] then 2 else 1))
     \<and> (board_fetches (since s s') = 0 \<longrightarrow> dict_get (board_map s) b = Some r \<and> s' = s)
     \<and> (truthy (dict_get (board_map s) b) \<longrightarrow> dict_get (board_map s) b = Some r \<and> s' = s)"
proof
  assume g: "get_board_name w s b = (r, s')"
  let ?s1 = "if board_map s = [] then refresh_board_map w s else s"
  show "r \<noteq> []
     \<and> (truthy (dict_get (board_map s') b) \<longrightarrow> dict_get (board_map s') b = Some r)
     \<and> (\<not> truthy (dict_get (board_map s') b) \<longrightarrow>
           r = unknown_board b
           \<and> \<not> truthy (dict_get (board_map ?s1) b)
           \<and> board_fetches (since s s') = (if board_map s = [] then 2 else 1))
     \<and> (board_fetches (since s s') = 0 \<longrightarrow> dict_get (board_map s) b = Some r \<and> s' = s)
     \<and> (truthy (dict_get (board_map s) b) \<longrightarrow> dict_get (board_map s) b = Some r \<and> s' = s)"
  proof (cases "truthy (dict_get (board_map ?s1) b)")
    case True
    with g have "(r, s') = (or_else (dict_get (board_map ?s1) b) (unknown_board b), ?s1)"
      by (simp only: get_board_name_def Let_def if_True not_True_eq_False if_False)
    then have r: "r = or_else (dict_get (board_map ?s1) b) (unknown_board b)" "s' = ?s1"
      by (simp_all only: prod.inject)
    from True r have hit: "dict_get (board_map s') b = Some r"
      by (simp add: or_else_truthy)
    with True r have ne: "r \<noteq> []" by (auto simp: truthy_def)
    show ?thesis
    proof (cases "board_map s = []")
      case True
      with r have "since s s' = [E_request BoardAllGET]"
        by (simp add: since_def)
      with hit ne True r \<open>truthy (dict_get (board_map ?s1) b)\<close> show ?thesis
        by (auto dest: truthy_dict_get_nonempty)
    next
      case False
      with r have "s' = s" by simp
      with hit ne \<open>truthy (dict_get (board_map ?s1) b)\<close> False show ?thesis
        by simp
    qed
  next
    case False
    with g have "(r, s') = (or_else (dict_get (board_map (refresh_board_map w ?s1)) b) (unknown_board b),
        refresh_board_map w ?s1)"
      by (simp only: get_board_name_def Let_def if_True not_False_eq_True if_False)
    then have r: "r = or_else (dict_get (board_map (refresh_board_map w ?s1)) b) (unknown_board b)"
        "s' = refresh_board_map w ?s1"
      by (simp_all only: prod.inject)
    have cnt: "board_fetches (since s s') = (if board_map s = [] then 2 else 1)"
      using r by (simp add: since_def)
    have nt: "\<not> truthy (dict_get (board_map s) b)"
      using False by (auto dest: truthy_dict_get_nonempty split: if_splits)
    have ne: "r \<noteq> []"
      using r unknown_board_nonempty [of b]
      by (cases "dict_get (board_map (refresh_board_map w ?s1)) b") (auto simp: or_else_def)
    have hit: "dict_get (board_map s') b = Some r" if "truthy (dict_get (board_map s') b)"
      using that r by (simp add: or_else_truthy)
    have miss: "r = unknown_board b" if "\<not> truthy (dict_get (board_map s') b)"
      using that r by (simp add: or_else_not_truthy)
    from cnt nt ne hit miss False show ?thesis
      by auto
  qed
qed

theorem get_board_name_lookup_witness:
  "get_board_name w_down s_named (Some 459) = (ascii ''jobs'', s_named)
   \<and> truthy (dict_get (board_map s_named) (Some 459))
   \<and> dict_get (board_map s_named) (Some 459) = Some (ascii ''jobs'')
   \<and> get_board_name w_down s_old (Some 7)
       = (ascii ''Unknown Board (7)'', snd (get_board_name w_down s_old (Some 7)))
   \<and> \<not> truthy (dict_get (board_map (snd (get_board_name w_down s_old (Some 7)))) (Some 7))
   \<and> unknown_board (Some 7) = ascii ''Unknown Board (7)''
   \<and> board_fetches (since s_old (snd (get_board_name w_down s_old (Some 7)))) = 2"
proof -
  have g1: "get_board_name w_down s_named (Some 459) = (ascii ''jobs'', s_named)"
    by code_simp
  have t1: "truthy (dict_get (board_map s_named) (Some 459))"
    by code_simp
  note a = get_board_name_lookup [THEN mp, OF g1]
  from a t1 have d1: "dict_get (board_map s_named) (Some 459) = Some (ascii ''jobs'')"
    by blast
  have g2: "get_board_name w_down s_old (Some 7)
       = (ascii ''Unknown Board (7)'', snd (get_board_name w_down s_old (Some 7)))"
    by code_simp
  have t2: "\<not> truthy (dict_get (board_map (snd (get_board_name w_down s_old (Some 7)))) (Some 7))"
    by code_simp
  have e: "board_map s_old = []"
    by code_simp
  note b = get_board_name_lookup [THEN mp, OF g2, THEN conjunct2, THEN conjunct2, THEN conjunct1, THEN mp, OF t2]
  from b have u: "unknown_board (Some 7) = ascii ''Unknown Board (7)''"
    by simp
  from b e have n: "board_fetches (since s_old (snd (get_board_name w_down s_old (Some 7)))) = 2"
    by simp
  from g1 t1 d1 g2 t2 u n show ?thesis by (intro conjI)
qed

theorem stored_name_counterexample:
  "map_of (board_map s_blank) (Some 5) = Some (Some [])
   \<and> fst (get_board_name w_down s_blank (Some 5)) = ascii ''Unknown Board (5)''
   \<and> fst (get_board_name w_down s_blank (Some 5)) \<noteq> []"
  by code_simp

end
